theory Spec2Isabelle
  imports Main "HOL-Library.Sublist"
begin

section \<open>Identity canonicalizer\<close>

text \<open>
  JavaScript strings are modelled as character lists. The two string operations the
  canonicalizer uses are \<^verbatim>\<open>s.replace(/^pat/, rep)\<close> with a literal pattern
  anchored at the start of the input (no flags, so \<^verbatim>\<open>^\<close> only matches at index 0)
  and \<^verbatim>\<open>s.replace(pat, rep)\<close> with a string pattern, which rewrites the first
  occurrence of the pattern only. Neither replacement text contains a \<^verbatim>\<open>$\<close>
  pattern, so the replacement is inserted literally.
\<close>

definition replace_anchored :: "string \<Rightarrow> string \<Rightarrow> string \<Rightarrow> string" where
  "replace_anchored pat rep s = (if prefix pat s then rep @ drop (length pat) s else s)"

fun replace_first :: "string \<Rightarrow> string \<Rightarrow> string \<Rightarrow> string" where
  "replace_first pat rep [] = (if pat = [] then rep else [])"
| "replace_first pat rep (c # cs) =
     (if prefix pat (c # cs) then rep @ drop (length pat) (c # cs)
      else c # replace_first pat rep cs)"

text \<open>
  The two rewrites of the adapter, named as the constants they are bound to in
  \<^verbatim>\<open>get\<close>: \<^verbatim>\<open>url.replace(/^http:\/\//, "https://")\<close> and
  \<^verbatim>\<open>url.replace(/^https:\/\//, "http://")\<close>.
\<close>

definition httpsUrl :: "string \<Rightarrow> string" where
  "httpsUrl url = replace_anchored ''http://'' ''https://'' url"

definition httpUrl :: "string \<Rightarrow> string" where
  "httpUrl url = replace_anchored ''https://'' ''http://'' url"

text \<open>\<^verbatim>\<open>normalizeSaleorApiUrl\<close> (lib/normalize-saleor-api-url).\<close>

definition normalizeSaleorApiUrl :: "string \<Rightarrow> string" where
  "normalizeSaleorApiUrl url =
     (if prefix ''http://'' url
      then replace_first ''http://'' ''https://'' url
      else url)"

text \<open>
  The record of the credential store. The fields are those the tests build; the record is
  extensible, and every operation below is stated on the extensible scheme, so that any
  further field an \<^verbatim>\<open>AuthData\<close> object carries is copied by the object spread
  \<^verbatim>\<open>{...authData, saleorApiUrl: ...}\<close> exactly as the named ones are.
\<close>

record AuthData =
  appId :: string
  saleorApiUrl :: string
  token :: string
  jwks :: string

text \<open>\<^verbatim>\<open>HttpsEnforcingAPL.enforceHttps\<close>.\<close>

definition enforceHttps :: "'m AuthData_scheme \<Rightarrow> 'm AuthData_scheme" where
  "enforceHttps authData =
     authData\<lparr>saleorApiUrl := httpsUrl (saleorApiUrl authData)\<rparr>"

section \<open>Credential store adapter\<close>

subsection \<open>The backing store and the observable world\<close>

text \<open>
  Promises: a pending asynchronous operation of the backing store is a task, a finite
  sequence of atomic steps on the store's state that ends with the outcome the promise
  settles to (\<open>Inr\<close> fulfilled, \<open>Inl\<close> rejected). Each step may choose its
  continuation from the state it sees, so a task is a tree.
\<close>

datatype ('s, 'r) task = Done 'r | Step "'s \<Rightarrow> 's" "'s \<Rightarrow> ('s, 'r) task"

primrec run_task :: "('s, 'r) task \<Rightarrow> 's \<Rightarrow> 'r \<times> 's" where
  "run_task (Done r) s = (r, s)"
| "run_task (Step u k) s = run_task (k s) (u s)"

text \<open>
  The backing store is a parameter: a state type \<open>'s\<close>, an exception type \<open>'e\<close> and
  the four operations of the \<^verbatim>\<open>APL\<close> interface. \<^verbatim>\<open>get\<close>, \<^verbatim>\<open>set\<close> and
  \<^verbatim>\<open>getAll\<close> are awaited one at a time by the adapter, so each is one transition of the
  store that yields the settled outcome. \<^verbatim>\<open>delete\<close> is the only operation the adapter
  has two of in flight at once, so it yields a task.
\<close>

record ('s, 'e, 'm) APL =
  apl_get :: "string \<Rightarrow> 's \<Rightarrow> ('e + 'm AuthData_scheme option) \<times> 's"
  apl_set :: "'m AuthData_scheme \<Rightarrow> 's \<Rightarrow> ('e + unit) \<times> 's"
  apl_delete :: "string \<Rightarrow> ('s, 'e + unit) task"
  apl_getAll :: "'s \<Rightarrow> ('e + 'm AuthData_scheme list) \<times> 's"

datatype 'm call =
    GetCall string
  | SetCall "'m AuthData_scheme"
  | DeleteCall string
  | GetAllCall

datatype level = Debug | Info | Warn | Error

datatype 'a event = Event level 'a

text \<open>\<^verbatim>\<open>logger.warn("APL authentication data not found", { requestedUrl })\<close>\<close>

datatype apl_msg = AuthDataNotFound string

record ('s, 'm) world =
  store :: 's
  calls :: "'m call list"
  logs :: "apl_msg event list"

definition base_get ::
  "('s, 'e, 'm) APL \<Rightarrow> string \<Rightarrow> ('s, 'm) world \<Rightarrow> ('e + 'm AuthData_scheme option) \<times> ('s, 'm) world" where
  "base_get baseApl k w =
     (case apl_get baseApl k (store w) of
        (r, s') \<Rightarrow> (r, w\<lparr>store := s', calls := calls w @ [GetCall k]\<rparr>))"

definition base_set ::
  "('s, 'e, 'm) APL \<Rightarrow> 'm AuthData_scheme \<Rightarrow> ('s, 'm) world \<Rightarrow> ('e + unit) \<times> ('s, 'm) world" where
  "base_set baseApl a w =
     (case apl_set baseApl a (store w) of
        (r, s') \<Rightarrow> (r, w\<lparr>store := s', calls := calls w @ [SetCall a]\<rparr>))"

definition base_getAll ::
  "('s, 'e, 'm) APL \<Rightarrow> ('s, 'm) world \<Rightarrow> ('e + 'm AuthData_scheme list) \<times> ('s, 'm) world" where
  "base_getAll baseApl w =
     (case apl_getAll baseApl (store w) of
        (r, s') \<Rightarrow> (r, w\<lparr>store := s', calls := calls w @ [GetAllCall]\<rparr>))"

subsection \<open>The adapter's operations\<close>

text \<open>
  \<^verbatim>\<open>HttpsEnforcingAPL.get\<close>. An exception of the backing store leaves the function at the
  \<^verbatim>\<open>await\<close> that raised it. A record is an object, so \<^verbatim>\<open>!authData\<close> holds
  exactly for \<^verbatim>\<open>undefined\<close>.
\<close>

definition get ::
  "('s, 'e, 'm) APL \<Rightarrow> string \<Rightarrow> ('s, 'm) world \<Rightarrow> ('e + 'm AuthData_scheme option) \<times> ('s, 'm) world" where
  "get baseApl requestedUrl w0 =
     (case base_get baseApl (httpsUrl requestedUrl) w0 of
           (Inl e, w1) \<Rightarrow> (Inl e, w1)
         | (Inr a1, w1) \<Rightarrow>
             (case (if a1 = None then base_get baseApl (httpUrl requestedUrl) w1
                    else (Inr a1, w1)) of
                (Inl e, w2) \<Rightarrow> (Inl e, w2)
              | (Inr a2, w2) \<Rightarrow>
                  (case (if a2 = None then base_get baseApl requestedUrl w2 else (Inr a2, w2)) of
                     (Inl e, w3) \<Rightarrow> (Inl e, w3)
                   | (Inr authData, w3) \<Rightarrow>
                       (let result = map_option enforceHttps authData
                        in if result = None
                           then (Inr result,
                                 w3\<lparr>logs := logs w3 @ [Event Warn (AuthDataNotFound requestedUrl)]\<rparr>)
                           else (Inr result, w3)))))"

text \<open>\<^verbatim>\<open>HttpsEnforcingAPL.set\<close>.\<close>

definition set' ::
  "('s, 'e, 'm) APL \<Rightarrow> 'm AuthData_scheme \<Rightarrow> ('s, 'm) world \<Rightarrow> ('e + unit) \<times> ('s, 'm) world" where
  "set' baseApl authData w = base_set baseApl (enforceHttps authData) w"

text \<open>\<^verbatim>\<open>HttpsEnforcingAPL.getAll\<close>.\<close>

definition getAll ::
  "('s, 'e, 'm) APL \<Rightarrow> ('s, 'm) world \<Rightarrow> ('e + 'm AuthData_scheme list) \<times> ('s, 'm) world" where
  "getAll baseApl w =
     (case base_getAll baseApl w of
        (Inl e, w1) \<Rightarrow> (Inl e, w1)
      | (Inr allAuthData, w1) \<Rightarrow> (Inr (map enforceHttps allAuthData), w1))"

text \<open>
  \<^verbatim>\<open>Promise.allSettled([p1, p2])\<close> for two pending tasks. Which task takes the next
  step is the event loop's choice: the schedule \<open>sched\<close> makes the first choices
  (\<open>True\<close> steps the first task), and once it is used up the first task runs to
  its end and then the second. The result holds the two outcomes; it is never a
  rejection.
\<close>

fun allSettled2 ::
  "bool list \<Rightarrow> ('s, 'r) task \<Rightarrow> ('s, 'r) task \<Rightarrow> 's \<Rightarrow> ('r \<times> 'r) \<times> 's" where
  "allSettled2 sched (Done r1) t2 s = (case run_task t2 s of (r2, s') \<Rightarrow> ((r1, r2), s'))"
| "allSettled2 sched (Step u1 k1) (Done r2) s =
     (case run_task (Step u1 k1) s of (r1, s') \<Rightarrow> ((r1, r2), s'))"
| "allSettled2 [] (Step u1 k1) (Step u2 k2) s =
     (case run_task (Step u1 k1) s of
        (r1, s1) \<Rightarrow> (case run_task (Step u2 k2) s1 of (r2, s2) \<Rightarrow> ((r1, r2), s2)))"
| "allSettled2 (b # sched) (Step u1 k1) (Step u2 k2) s =
     (if b then allSettled2 sched (k1 s) (Step u2 k2) (u1 s)
      else allSettled2 sched (Step u1 k1) (k2 s) (u2 s))"

text \<open>
  The interleavings themselves, as a relation: either task takes a step, until both are
  done. The runs of \<open>allSettled2\<close> over all schedules are exactly these.
\<close>

inductive interleaving ::
  "('s, 'r) task \<Rightarrow> ('s, 'r) task \<Rightarrow> 's \<Rightarrow> ('r \<times> 'r) \<times> 's \<Rightarrow> bool" where
  both_done: "interleaving (Done r1) (Done r2) s ((r1, r2), s)"
| first_steps: "interleaving (k s) t2 (u s) res \<Longrightarrow> interleaving (Step u k) t2 s res"
| second_steps: "interleaving t1 (k s) (u s) res \<Longrightarrow> interleaving t1 (Step u k) s res"


subsection \<open>Two backing stores to run the adapter on\<close>

text \<open>
  Modelled from the spec: the backing store is an external dependency (the SDK's
  \<^verbatim>\<open>FileAPL\<close>, \<^verbatim>\<open>UpstashAPL\<close>, \<^verbatim>\<open>SaleorCloudAPL\<close>), known here by its
  contract only: read by identity, write, delete by identity, enumerate. \<open>memApl\<close> is
  the plainest store with that contract, a list of records keyed by their identity.
\<close>

definition memApl :: "(AuthData list, string, unit) APL" where
  "memApl =
     \<lparr>apl_get = (\<lambda>k s. (Inr (find (\<lambda>a. saleorApiUrl a = k) s), s)),
      apl_set = (\<lambda>a s. (Inr (), a # filter (\<lambda>b. saleorApiUrl b \<noteq> saleorApiUrl a) s)),
      apl_delete = (\<lambda>k. Step (filter (\<lambda>a. saleorApiUrl a \<noteq> k)) (\<lambda>s. Done (Inr ()))),
      apl_getAll = (\<lambda>s. (Inr s, s))\<rparr>"


definition sampleAuthData :: AuthData where
  "sampleAuthData =
     \<lparr>appId = ''test-app'', saleorApiUrl = ''http://example.com/graphql/'',
      token = ''test-token'', jwks = ''test-jwks''\<rparr>"

definition world0 :: "'s \<Rightarrow> ('s, 'm) world" where
  "world0 s = \<lparr>store = s, calls = [], logs = []\<rparr>"

text \<open>
  The law of a key-value store that the round trip needs of the backing store: a record
  whose write succeeded is the one a read of its identity finds next.
\<close>

definition read_your_write :: "('s, 'e, 'm) APL \<Rightarrow> bool" where
  "read_your_write baseApl \<longleftrightarrow>
     (\<forall>a s s'. apl_set baseApl a s = (Inr (), s') \<longrightarrow>
        (\<exists>s''. apl_get baseApl (saleorApiUrl a) s' = (Inr (Some a), s'')))"




section \<open>Capability patcher\<close>

subsection \<open>Strings\<close>

text \<open>\<^verbatim>\<open>s.str_includes(pat)\<close>.\<close>

fun str_includes :: "string \<Rightarrow> string \<Rightarrow> bool" where
  "str_includes [] pat = (pat = [])"
| "str_includes (c # cs) pat = (prefix pat (c # cs) \<or> str_includes cs pat)"

text \<open>
  \<^verbatim>\<open>s.toLowerCase()\<close>, on the ASCII letters; the keys it is applied to are
  identifiers of JavaScript modules.
\<close>

definition toLowerCase :: "string \<Rightarrow> string" where
  "toLowerCase s =
     map (\<lambda>c. case map_of (zip ''ABCDEFGHIJKLMNOPQRSTUVWXYZ'' ''abcdefghijklmnopqrstuvwxyz'') c of
                 None \<Rightarrow> c | Some d \<Rightarrow> d) s"

text \<open>
  \<^verbatim>\<open>s.split(sep)\<close> for a separator that is not empty: \<open>cur\<close> collects the segment
  being read. \<^verbatim>\<open>.pop()\<close> takes the last segment, and there always is one.
\<close>

fun split_from :: "string \<Rightarrow> nat \<Rightarrow> string \<Rightarrow> string \<Rightarrow> string list" where
  "split_from sep skip cur [] = [cur]"
| "split_from sep skip cur (c # cs) =
     (if 0 < skip then split_from sep (skip - 1) cur cs
      else if prefix sep (c # cs) then cur # split_from sep (length sep - 1) [] cs
      else split_from sep 0 (cur @ [c]) cs)"

definition split :: "string \<Rightarrow> string \<Rightarrow> string list" where
  "split s sep = split_from sep 0 [] s"

definition pop :: "string list \<Rightarrow> string" where
  "pop segs = last segs"

subsection \<open>Values, objects and the heap\<close>

text \<open>
  An exception is an \<^verbatim>\<open>Error\<close> with its message or any other thrown value; the
  handlers read it through \<^verbatim>\<open>e instanceof Error ? e.message : 'Unknown error'\<close>.
\<close>

datatype exn = JsError string | Thrown


datatype jsval = Undefined | Null | JBool bool | JNum int | JStr string | Ref nat

text \<open>
  A function is either one that was there before the patcher ran, known by a number, or
  the closure that \<^verbatim>\<open>patchSignatureFunction\<close> creates, which captures
  \<^verbatim>\<open>functionName\<close> and \<^verbatim>\<open>modulePath\<close>.
\<close>

datatype fn = Native nat | Bypass string string

text \<open>
  A property is a writable data property, or a binding that cannot be assigned: a
  read-only data property or an accessor with a getter only, whose read gives a value or
  throws. The module is strict code, so assigning to the second kind throws a
  \<^verbatim>\<open>TypeError\<close>.
\<close>

datatype binding = Data jsval | Fixed "exn + jsval"

record obj =
  props :: "(string \<times> binding) list"
  callable :: "fn option"

fun truthy :: "jsval \<Rightarrow> bool" where
  "truthy Undefined = False"
| "truthy Null = False"
| "truthy (JBool b) = b"
| "truthy (JNum n) = (n \<noteq> 0)"
| "truthy (JStr s) = (s \<noteq> [])"
| "truthy (Ref a) = True"

text \<open>\<^verbatim>\<open>typeof v === 'function'\<close> and \<^verbatim>\<open>typeof v === 'object'\<close>.\<close>

fun typeof_function :: "obj list \<Rightarrow> jsval \<Rightarrow> bool" where
  "typeof_function h (Ref a) = (a < length h \<and> callable (h ! a) \<noteq> None)"
| "typeof_function h v = False"

fun typeof_object :: "obj list \<Rightarrow> jsval \<Rightarrow> bool" where
  "typeof_object h (Ref a) = (a < length h \<and> callable (h ! a) = None)"
| "typeof_object h Null = True"
| "typeof_object h v = False"

text \<open>
  \<^verbatim>\<open>v[key]\<close>, on the object's own properties. Reading a property of
  \<^verbatim>\<open>undefined\<close> or \<^verbatim>\<open>null\<close> throws; the other primitives have none of the
  properties the patcher asks for.
\<close>

fun get_prop :: "obj list \<Rightarrow> jsval \<Rightarrow> string \<Rightarrow> exn + jsval" where
  "get_prop h (Ref a) key =
     (if a < length h
      then (case map_of (props (h ! a)) key of
              None \<Rightarrow> Inr Undefined
            | Some (Data v) \<Rightarrow> Inr v
            | Some (Fixed r) \<Rightarrow> r)
      else Inr Undefined)"
| "get_prop h Undefined key = Inl (JsError ''Cannot read properties of undefined'')"
| "get_prop h Null key = Inl (JsError ''Cannot read properties of null'')"
| "get_prop h v key = Inr Undefined"

definition write_prop :: "string \<Rightarrow> jsval \<Rightarrow> (string \<times> binding) list \<Rightarrow> (string \<times> binding) list" where
  "write_prop key v ps =
     (if key \<in> fst ` set ps
      then map (\<lambda>(k, p). if k = key then (k, Data v) else (k, p)) ps
      else ps @ [(key, Data v)])"

text \<open>\<^verbatim>\<open>v[key] = x\<close> in strict code.\<close>

fun set_prop :: "obj list \<Rightarrow> jsval \<Rightarrow> string \<Rightarrow> jsval \<Rightarrow> exn + obj list" where
  "set_prop h (Ref a) key x =
     (if a < length h
      then (case map_of (props (h ! a)) key of
              Some (Fixed r) \<Rightarrow> Inl (JsError ''Cannot assign to read only property'')
            | _ \<Rightarrow> Inr (h[a := (h ! a)\<lparr>props := write_prop key x (props (h ! a))\<rparr>]))
      else Inl (JsError ''Cannot set properties of undefined''))"
| "set_prop h v key x = Inl (JsError ''Cannot create property'')"

text \<open>
  \<^verbatim>\<open>Object.keys(v)\<close>. The keys of a primitive string are its indices, whose values are
  strings and never functions, so the loops over them do nothing that can be seen; they
  are left out.
\<close>

fun object_keys :: "obj list \<Rightarrow> jsval \<Rightarrow> exn + string list" where
  "object_keys h (Ref a) = Inr (if a < length h then map fst (props (h ! a)) else [])"
| "object_keys h Undefined = Inl (JsError ''Cannot convert undefined or null to object'')"
| "object_keys h Null = Inl (JsError ''Cannot convert undefined or null to object'')"
| "object_keys h v = Inr []"

subsection \<open>The environment\<close>

text \<open>The messages of the logger, with the values their templates and fields carry.\<close>

datatype patch_msg =
    AttemptingBypass
  | DelayedPatchingFailed string
  | BypassSetupCompleted
  | FailedToBypass exn string
  | FoundSdkModules "string list" nat
  | FoundInExports
  | FoundInDefaultExport
  | FoundPotentialSignatureFunction string string
  | SuccessfullyPatchedCount nat
  | NoFunctionsFound
  | ModuleCachePatchingFailed string
  | FoundVerifyFunction string string
  | DirectModulePatchingFailed string
  | BypassingVerification bool bool bool string string
  | SuccessfullyPatched string string

text \<open>
  \<open>require_cache\<close> is what evaluating \<^verbatim>\<open>require.cache\<close> gives: an exception where
  \<^verbatim>\<open>require\<close> is not defined, \<^verbatim>\<open>undefined\<close> (\<open>None\<close>), or the cache, an object
  from module paths to module objects, each path once, in the order of its keys.
  \<open>require_module\<close> is \<^verbatim>\<open>require(name)\<close> for a module that is loaded already or
  cannot be found: it returns the exports or throws and changes nothing. \<open>native\<close> gives
  the functions that were there before their behaviour. \<open>timers\<close> counts the callbacks
  handed to \<^verbatim>\<open>setTimeout\<close> that have not run yet.
\<close>

record penv =
  require_cache :: "exn + (string \<times> jsval) list option"
  require_module :: "string \<Rightarrow> exn + jsval"
  native :: "nat \<Rightarrow> jsval list \<Rightarrow> exn + jsval"
  heap :: "obj list"
  plogs :: "patch_msg event list"
  timers :: nat

type_synonym 'a js = "penv \<Rightarrow> (exn + 'a) \<times> penv"

definition js_return :: "'a \<Rightarrow> 'a js" where
  "js_return x = (\<lambda>s. (Inr x, s))"

definition js_bind :: "'a js \<Rightarrow> ('a \<Rightarrow> 'b js) \<Rightarrow> 'b js" where
  "js_bind m f = (\<lambda>s. case m s of (Inl e, s') \<Rightarrow> (Inl e, s') | (Inr x, s') \<Rightarrow> f x s')"

definition js_then :: "unit js \<Rightarrow> 'b js \<Rightarrow> 'b js" where
  "js_then m n = js_bind m (\<lambda>_. n)"

definition try_catch :: "'a js \<Rightarrow> (exn \<Rightarrow> 'a js) \<Rightarrow> 'a js" where
  "try_catch m handler = (\<lambda>s. case m s of (Inl e, s') \<Rightarrow> handler e s' | (Inr x, s') \<Rightarrow> (Inr x, s'))"

definition logger :: "level \<Rightarrow> patch_msg \<Rightarrow> unit js" where
  "logger lvl m = (\<lambda>s. (Inr (), s\<lparr>plogs := plogs s @ [Event lvl m]\<rparr>))"

definition read_prop :: "jsval \<Rightarrow> string \<Rightarrow> jsval js" where
  "read_prop v key = (\<lambda>s. (get_prop (heap s) v key, s))"

definition assign_prop :: "jsval \<Rightarrow> string \<Rightarrow> jsval \<Rightarrow> unit js" where
  "assign_prop v key x =
     (\<lambda>s. case set_prop (heap s) v key x of
             Inl e \<Rightarrow> (Inl e, s)
           | Inr h' \<Rightarrow> (Inr (), s\<lparr>heap := h'\<rparr>))"

definition keys_of :: "jsval \<Rightarrow> string list js" where
  "keys_of v = (\<lambda>s. (object_keys (heap s) v, s))"

definition new_function :: "fn \<Rightarrow> jsval js" where
  "new_function f =
     (\<lambda>s. (Inr (Ref (length (heap s))), s\<lparr>heap := heap s @ [\<lparr>props = [], callable = Some f\<rparr>]\<rparr>))"

text \<open>\<^verbatim>\<open>xs.forEach(f)\<close>: an exception of the callback ends the loop.\<close>

fun forEach :: "'a list \<Rightarrow> ('a \<Rightarrow> unit js) \<Rightarrow> unit js" where
  "forEach [] f = js_return ()"
| "forEach (x # xs) f = js_then (f x) (forEach xs f)"

text \<open>
  The same loop for a callback that updates the captured variable \<^verbatim>\<open>patchedCount\<close>,
  which is passed along.
\<close>

fun forEach_counting :: "'a list \<Rightarrow> ('a \<Rightarrow> nat \<Rightarrow> nat js) \<Rightarrow> nat \<Rightarrow> nat js" where
  "forEach_counting [] f n = js_return n"
| "forEach_counting (x # xs) f n = js_bind (f x n) (forEach_counting xs f)"

subsection \<open>The patcher\<close>




text \<open>\<^verbatim>\<open>patchSignatureFunction\<close>.\<close>

definition patchSignatureFunction :: "jsval \<Rightarrow> string \<Rightarrow> string \<Rightarrow> unit js" where
  "patchSignatureFunction ob functionName modulePath =
     js_bind (read_prop ob functionName) (\<lambda>originalFunction.
     js_bind (new_function (Bypass functionName modulePath)) (\<lambda>override.
     js_then (assign_prop ob functionName override)
       (logger Info (SuccessfullyPatched functionName (pop (split modulePath ''node_modules''))))))"

text \<open>
  The callback of \<^verbatim>\<open>sdkModules.forEach\<close> in \<^verbatim>\<open>patchLoadedModules\<close>, once
  \<^verbatim>\<open>exports\<close> is known to be truthy, statement by statement: the test of the direct
  export, the test of the export behind \<^verbatim>\<open>default\<close>, and the loop that reports
  the functions whose name looks like a verification. \<^verbatim>\<open>exports.default\<close> is read
  three times in the source with nothing in between that could change it; it is read
  once here.
\<close>

definition inspectDirect :: "jsval \<Rightarrow> string \<Rightarrow> nat \<Rightarrow> nat js" where
  "inspectDirect exports modulePath patchedCount =
     js_bind (read_prop exports ''verifySignatureWithJwks'') (\<lambda>direct.
       if truthy direct
       then js_then (logger Info FoundInExports)
           (js_then (patchSignatureFunction exports ''verifySignatureWithJwks'' modulePath)
           (js_return (patchedCount + 1)))
       else js_return patchedCount)"

definition inspectDefault :: "jsval \<Rightarrow> string \<Rightarrow> nat \<Rightarrow> nat js" where
  "inspectDefault exports modulePath patchedCount =
     js_bind (read_prop exports ''default'') (\<lambda>dflt.
       if truthy dflt
       then js_bind (read_prop dflt ''verifySignatureWithJwks'') (\<lambda>viaDefault.
              if truthy viaDefault
              then js_then (logger Info FoundInDefaultExport)
                  (js_then (patchSignatureFunction dflt ''verifySignatureWithJwks''
                              (modulePath @ ''.default''))
                  (js_return (patchedCount + 1)))
              else js_return patchedCount)
       else js_return patchedCount)"

definition reportCandidates :: "jsval \<Rightarrow> string \<Rightarrow> unit js" where
  "reportCandidates exports modulePath =
     js_bind (keys_of exports) (\<lambda>keys.
       forEach keys (\<lambda>key.
         js_bind (read_prop exports key) (\<lambda>v. \<lambda>s.
           if typeof_function (heap s) v \<and>
              (str_includes (toLowerCase key) ''verify'' \<or>
               str_includes (toLowerCase key) ''signature'')
           then logger Info (FoundPotentialSignatureFunction key
                  (pop (split modulePath ''node_modules''))) s
           else js_return () s)))"

definition inspectExports :: "jsval \<Rightarrow> string \<Rightarrow> nat \<Rightarrow> nat js" where
  "inspectExports exports modulePath patchedCount =
     js_bind (inspectDirect exports modulePath patchedCount) (\<lambda>patchedCount1.
     js_bind (inspectDefault exports modulePath patchedCount1) (\<lambda>patchedCount2.
     js_then (reportCandidates exports modulePath)
       (js_return patchedCount2)))"

definition scanModule :: "(string \<times> jsval) list \<Rightarrow> string \<Rightarrow> nat \<Rightarrow> nat js" where
  "scanModule moduleCache modulePath patchedCount =
     (let moduleObj = (case map_of moduleCache modulePath of None \<Rightarrow> Undefined | Some m \<Rightarrow> m)
      in if truthy moduleObj
         then js_bind (read_prop moduleObj ''exports'') (\<lambda>exports.
              if truthy exports then inspectExports exports modulePath patchedCount
              else js_return patchedCount)
         else js_return patchedCount)"

definition isSdkModule :: "string \<Rightarrow> bool" where
  "isSdkModule key \<longleftrightarrow>
     str_includes key ''@saleor/app-sdk'' \<and>
     (str_includes key ''chunk-SB7ROIUN'' \<or> str_includes key ''handlers/next'' \<or> str_includes key ''verify'')"

text \<open>
  Approach 1 of \<^verbatim>\<open>patchLoadedModules\<close>, the body of its first \<^verbatim>\<open>try\<close>. The value
  returned is the \<^verbatim>\<open>patchedCount\<close> the block ends with.
\<close>

definition patchRequireCache :: "nat js" where
  "patchRequireCache =
     js_bind (\<lambda>s. (require_cache s, s)) (\<lambda>cache.
       let moduleCache = (case cache of None \<Rightarrow> [] | Some c \<Rightarrow> c);
           sdkModules = filter isSdkModule (map fst moduleCache)
       in js_then
            (logger Info (FoundSdkModules
               (map (\<lambda>m. pop (split m ''node_modules'')) sdkModules) (length (map fst moduleCache))))
            (js_bind (forEach_counting sdkModules (scanModule moduleCache) 0) (\<lambda>patchedCount.
               js_then
                 (if 0 < patchedCount then logger Info (SuccessfullyPatchedCount patchedCount)
                  else logger Warn NoFunctionsFound)
                 (js_return patchedCount))))"

text \<open>Approach 2, the body of the second \<^verbatim>\<open>try\<close>; the inner handler is empty.\<close>

definition patchByRequire :: "unit js" where
  "patchByRequire =
     forEach [''@saleor/app-sdk/handlers/next'', ''@saleor/app-sdk''] (\<lambda>moduleName.
       try_catch
         (js_bind (\<lambda>s. (require_module s moduleName, s)) (\<lambda>module. \<lambda>s.
            if truthy module \<and> typeof_object (heap s) module
            then js_bind (keys_of module) (\<lambda>keys.
                   forEach keys (\<lambda>key.
                     if str_includes (toLowerCase key) ''verify''
                     then js_bind (read_prop module key) (\<lambda>v. \<lambda>s.
                            if typeof_function (heap s) v
                            then logger Info (FoundVerifyFunction moduleName key) s
                            else js_return () s)
                     else js_return ())) s
            else js_return () s))
         (\<lambda>e. js_return ()))"






subsection \<open>Notions used in the statements and proofs\<close>

text \<open>The value is a function object created by \<^verbatim>\<open>patchSignatureFunction\<close>.\<close>

definition is_bypass :: "obj list \<Rightarrow> jsval \<Rightarrow> bool" where
  "is_bypass h v =
     (case v of
        Ref b \<Rightarrow> b < length h \<and>
          (case callable (h ! b) of Some (Bypass functionName modulePath) \<Rightarrow> True | _ \<Rightarrow> False)
      | _ \<Rightarrow> False)"

text \<open>
  How a heap can differ after patching: objects are added, no object changes whether it
  is a function, and the only property that changes is
  \<^verbatim>\<open>verifySignatureWithJwks\<close>, to an override.
\<close>

definition heap_evolves :: "obj list \<Rightarrow> obj list \<Rightarrow> bool" where
  "heap_evolves h h' \<longleftrightarrow>
     length h \<le> length h' \<and>
     (\<forall>a < length h.
        callable (h' ! a) = callable (h ! a) \<and>
        (\<forall>k. k \<noteq> ''verifySignatureWithJwks'' \<longrightarrow>
              map_of (props (h' ! a)) k = map_of (props (h ! a)) k) \<and>
        (map_of (props (h' ! a)) ''verifySignatureWithJwks'' =
           map_of (props (h ! a)) ''verifySignatureWithJwks'' \<or>
         (\<exists>g. map_of (props (h' ! a)) ''verifySignatureWithJwks'' = Some (Data g) \<and>
              is_bypass h' g)))"

definition evolves :: "penv \<Rightarrow> penv \<Rightarrow> bool" where
  "evolves s s' \<longleftrightarrow>
     require_cache s' = require_cache s \<and> require_module s' = require_module s \<and>
     native s' = native s \<and> prefix (plogs s) (plogs s') \<and> heap_evolves (heap s) (heap s')"


definition keeps :: "(penv \<Rightarrow> penv \<Rightarrow> bool) \<Rightarrow> 'a js \<Rightarrow> bool" where
  "keeps R m \<longleftrightarrow> (\<forall>s. R s (snd (m s)))"

definition log_closed :: "(penv \<Rightarrow> penv \<Rightarrow> bool) \<Rightarrow> bool" where
  "log_closed R \<longleftrightarrow>
     (\<forall>s. R s s) \<and> (\<forall>s t u. R s t \<longrightarrow> R t u \<longrightarrow> R s u) \<and>
     (\<forall>s e. R s (s\<lparr>plogs := plogs s @ [e]\<rparr>))"




subsection \<open>Module registries to run the patcher on\<close>







section \<open>Properties of the canonicalizer and the adapter\<close>

lemma replace_first_prefix:
  "prefix pat s \<Longrightarrow> replace_first pat rep s = rep @ drop (length pat) s"
  by (cases s) auto

lemma normalize_eq_httpsUrl: "normalizeSaleorApiUrl u = httpsUrl u"
  by (simp add: normalizeSaleorApiUrl_def httpsUrl_def replace_anchored_def replace_first_prefix)

lemma httpsUrl_canonical: "\<not> prefix ''http://'' (httpsUrl u)"
  by (auto simp: httpsUrl_def replace_anchored_def prefix_def)

lemma httpsUrl_idem: "httpsUrl (httpsUrl u) = httpsUrl u"
  using httpsUrl_canonical[of u] by (simp add: httpsUrl_def replace_anchored_def)

lemma httpsUrl_fixed: "\<not> prefix ''http://'' u \<Longrightarrow> httpsUrl u = u"
  by (simp add: httpsUrl_def replace_anchored_def)

lemma enforceHttps_idem: "enforceHttps (enforceHttps a) = enforceHttps a"
  by (simp add: enforceHttps_def httpsUrl_idem)

text \<open>
  Claim C2. The canonicalizer is a function of the string alone. On an identity that begins
  with \<^verbatim>\<open>http://\<close> it replaces that prefix by \<^verbatim>\<open>https://\<close> and keeps every character
  after it; on any other identity it returns the input. This holds of
  \<^verbatim>\<open>normalizeSaleorApiUrl\<close>, of the rewrite in the adapter and of \<^verbatim>\<open>enforceHttps\<close>,
  which changes no other field of the record.
\<close>
theorem canonicalize_prefix_rewrite:
  "(\<forall>rest. normalizeSaleorApiUrl (''http://'' @ rest) = ''https://'' @ rest
      \<and> httpsUrl (''http://'' @ rest) = ''https://'' @ rest
      \<and> enforceHttps (a\<lparr>saleorApiUrl := ''http://'' @ rest\<rparr>) = a\<lparr>saleorApiUrl := ''https://'' @ rest\<rparr>)
   \<and> (\<not> prefix ''http://'' u \<longrightarrow>
        normalizeSaleorApiUrl u = u \<and> httpsUrl u = u
        \<and> enforceHttps (a\<lparr>saleorApiUrl := u\<rparr>) = a\<lparr>saleorApiUrl := u\<rparr>)"
  by (simp add: normalize_eq_httpsUrl enforceHttps_def httpsUrl_def replace_anchored_def)

theorem canonicalize_prefix_rewrite_witness:
  "normalizeSaleorApiUrl ''http://example.com/graphql/?next=http://b/'' = ''https://example.com/graphql/?next=http://b/''
   \<and> \<not> prefix ''http://'' ''https://example.com/graphql/''
   \<and> normalizeSaleorApiUrl ''https://example.com/graphql/'' = ''https://example.com/graphql/''
   \<and> enforceHttps sampleAuthData = sampleAuthData\<lparr>saleorApiUrl := ''https://example.com/graphql/''\<rparr>
   \<and> enforceHttps (sampleAuthData\<lparr>saleorApiUrl := ''https://example.com/graphql/''\<rparr>)
       = sampleAuthData\<lparr>saleorApiUrl := ''https://example.com/graphql/''\<rparr>"
  using canonicalize_prefix_rewrite [of sampleAuthData "''https://example.com/graphql/''"]
  by (simp add: sampleAuthData_def)

text \<open>
  Claim C10. Canonicalizing twice is canonicalizing once, and the result never begins
  with \<^verbatim>\<open>http://\<close>.
\<close>
theorem canonicalize_idempotent:
  "normalizeSaleorApiUrl (normalizeSaleorApiUrl u) = normalizeSaleorApiUrl u
   \<and> httpsUrl (httpsUrl u) = httpsUrl u
   \<and> enforceHttps (enforceHttps a) = enforceHttps a
   \<and> \<not> prefix ''http://'' (normalizeSaleorApiUrl u)
   \<and> \<not> prefix ''http://'' (httpsUrl u)
   \<and> \<not> prefix ''http://'' (saleorApiUrl (enforceHttps a))"
  by (simp add: normalize_eq_httpsUrl httpsUrl_idem enforceHttps_idem httpsUrl_canonical enforceHttps_def)





text \<open>
  Claim C4. When the three reads find nothing, \<^verbatim>\<open>get\<close> returns \<^verbatim>\<open>undefined\<close> without
  an error, after exactly these three reads, and logs exactly one warning, which carries the
  identity that was asked for.
\<close>
theorem get_not_found:
  assumes "apl_get baseApl (httpsUrl u) (store w) = (Inr None, s1)"
    and "apl_get baseApl (httpUrl u) s1 = (Inr None, s2)"
    and "apl_get baseApl u s2 = (Inr None, s3)"
  shows "get baseApl u w =
           (Inr None,
            w\<lparr>store := s3,
              calls := calls w @ [GetCall (httpsUrl u), GetCall (httpUrl u), GetCall u],
              logs := logs w @ [Event Warn (AuthDataNotFound u)]\<rparr>)"
  using assms by (simp add: get_def base_get_def Let_def)

theorem get_not_found_witness:
  "get memApl ''http://x/graphql/'' (world0 []) =
     (Inr None,
      \<lparr>store = [],
       calls = [GetCall ''https://x/graphql/'', GetCall ''http://x/graphql/'', GetCall ''http://x/graphql/''],
       logs = [Event Warn (AuthDataNotFound ''http://x/graphql/'')]\<rparr>)"
  using get_not_found [where baseApl = memApl and u = "''http://x/graphql/''" and w = "world0 []"
      and ?s1.0 = "[]" and ?s2.0 = "[]" and ?s3.0 = "[]"]
  by (simp add: memApl_def world0_def httpsUrl_def httpUrl_def replace_anchored_def)






lemma read_your_write_memApl: "read_your_write memApl"
  by (simp add: read_your_write_def memApl_def)

text \<open>
  Claim C5. Over a backing store that returns what was last written under an identity, from
  any state: after a \<^verbatim>\<open>set\<close> of \<open>r\<close> that succeeded, \<^verbatim>\<open>get\<close> of the identity of
  \<open>r\<close> returns \<open>r\<close> with the identity rewritten and every other field as it was, on
  the first read.
\<close>
theorem set_get_round_trip:
  assumes "read_your_write baseApl" and "fst (set' baseApl r w) = Inr ()"
  shows "fst (get baseApl (saleorApiUrl r) (snd (set' baseApl r w))) =
           Inr (Some (r\<lparr>saleorApiUrl := httpsUrl (saleorApiUrl r)\<rparr>))
         \<and> calls (snd (get baseApl (saleorApiUrl r) (snd (set' baseApl r w)))) =
             calls w @ [SetCall (r\<lparr>saleorApiUrl := httpsUrl (saleorApiUrl r)\<rparr>),
                        GetCall (httpsUrl (saleorApiUrl r))]"
proof -
  obtain s1 where s1: "apl_set baseApl (enforceHttps r) (store w) = (Inr (), s1)"
    using assms(2) by (cases "apl_set baseApl (enforceHttps r) (store w)")
      (simp add: set'_def base_set_def)
  then obtain s2 where "apl_get baseApl (saleorApiUrl (enforceHttps r)) s1 = (Inr (Some (enforceHttps r)), s2)"
    using assms(1) unfolding read_your_write_def by blast
  then have g: "apl_get baseApl (httpsUrl (saleorApiUrl r)) s1 = (Inr (Some (enforceHttps r)), s2)"
    by (simp add: enforceHttps_def)
  have w1: "snd (set' baseApl r w) = w\<lparr>store := s1, calls := calls w @ [SetCall (enforceHttps r)]\<rparr>"
    using s1 by (simp add: set'_def base_set_def)
  show ?thesis
    using g by (simp add: w1 get_def base_get_def Let_def enforceHttps_def httpsUrl_idem)
qed

theorem set_get_round_trip_witness:
  "read_your_write memApl
   \<and> fst (set' memApl sampleAuthData (world0 [sampleAuthData])) = Inr ()
   \<and> fst (get memApl ''http://example.com/graphql/'' (snd (set' memApl sampleAuthData (world0 [sampleAuthData]))))
       = Inr (Some (sampleAuthData\<lparr>saleorApiUrl := ''https://example.com/graphql/''\<rparr>))"
proof -
  have ok: "fst (set' memApl sampleAuthData (world0 [sampleAuthData])) = Inr ()"
    by (simp add: set'_def base_set_def memApl_def)
  show ?thesis
    using set_get_round_trip [OF read_your_write_memApl ok] read_your_write_memApl ok
    by (simp add: sampleAuthData_def httpsUrl_def replace_anchored_def)
qed

lemma allSettled2_second_done:
  "allSettled2 sched t1 (Done r2) s = (case run_task t1 s of (r1, s') \<Rightarrow> ((r1, r2), s'))"
  by (cases t1) simp_all

lemma allSettled2_first_done:
  "allSettled2 sched (Done r1) t2 s = (case run_task t2 s of (r2, s') \<Rightarrow> ((r1, r2), s'))"
  by simp

lemma interleaving_has_schedule:
  "interleaving t1 t2 s res \<Longrightarrow> \<exists>sched. allSettled2 sched t1 t2 s = res"
proof (induction rule: interleaving.induct)
  case (both_done r1 r2 s)
  then show ?case by simp
next
  case (first_steps k s t2 u res)
  then obtain sched where sc: "allSettled2 sched (k s) t2 (u s) = res" by blast
  show ?case
  proof (cases t2)
    case (Done r2)
    then show ?thesis using sc by (simp add: allSettled2_second_done)
  next
    case (Step u2 k2)
    then have "allSettled2 (True # sched) (Step u k) t2 s = res" using sc by simp
    then show ?thesis by blast
  qed
next
  case (second_steps t1 k s u res)
  then obtain sched where sc: "allSettled2 sched t1 (k s) (u s) = res" by blast
  show ?case
  proof (cases t1)
    case (Done r1)
    then show ?thesis using sc by simp
  next
    case (Step u1 k1)
    then have "allSettled2 (False # sched) t1 (Step u k) s = res" using sc by simp
    then show ?thesis by blast
  qed
qed

lemma interleaving_run_second:
  "run_task t2 s = (r2, s') \<Longrightarrow> interleaving (Done r1) t2 s ((r1, r2), s')"
proof (induction t2 arbitrary: s)
  case (Done x)
  then show ?case by (auto intro: interleaving.intros)
next
  case (Step u k)
  then have "interleaving (Done r1) (k s) (u s) ((r1, r2), s')" by simp
  then show ?case by (rule second_steps)
qed

lemma interleaving_run_first:
  "run_task t1 s = (r1, s1) \<Longrightarrow> run_task t2 s1 = (r2, s2) \<Longrightarrow>
   interleaving t1 t2 s ((r1, r2), s2)"
proof (induction t1 arbitrary: s)
  case (Done x)
  then show ?case by (auto intro: interleaving_run_second)
next
  case (Step u k)
  then have "interleaving (k s) t2 (u s) ((r1, r2), s2)" by simp
  then show ?case by (rule first_steps)
qed

lemma schedule_is_interleaving:
  "interleaving t1 t2 s (allSettled2 sched t1 t2 s)"
proof (induction sched t1 t2 s rule: allSettled2.induct)
  case (1 sched r1 t2 s)
  obtain r2 s' where "run_task t2 s = (r2, s')" by (cases "run_task t2 s")
  then show ?case using interleaving_run_second[of t2 s r2 s' r1] by simp
next
  case (2 sched u1 k1 r2 s)
  obtain r1 s' where r: "run_task (Step u1 k1) s = (r1, s')" by (cases "run_task (Step u1 k1) s")
  have "interleaving (Step u1 k1) (Done r2) s ((r1, r2), s')"
    using interleaving_run_first[OF r, of "Done r2" r2 s'] by simp
  then show ?case using r by (simp del: run_task.simps) 
next
  case (3 u1 k1 u2 k2 s)
  obtain r1 s1 where r: "run_task (Step u1 k1) s = (r1, s1)" by (cases "run_task (Step u1 k1) s")
  obtain r2 s2 where q: "run_task (Step u2 k2) s1 = (r2, s2)" by (cases "run_task (Step u2 k2) s1")
  show ?case using interleaving_run_first[OF r q] r q by (simp del: run_task.simps)
next
  case (4 b sched u1 k1 u2 k2 s)
  then show ?case by (auto intro: interleaving.intros)
qed

lemma interleaving_iff_schedule:
  "interleaving t1 t2 s res \<longleftrightarrow> (\<exists>sched. allSettled2 sched t1 t2 s = res)"
  using interleaving_has_schedule schedule_is_interleaving by metis





text \<open>
  Claim C7. \<^verbatim>\<open>getAll\<close> returns as many records as the backing store, in the same
  order, each with its identity rewritten and nothing else changed.
\<close>
theorem getAll_same_order:
  assumes "apl_getAll baseApl (store w) = (Inr allAuthData, s')"
  shows "\<exists>result. getAll baseApl w = (Inr result, w\<lparr>store := s', calls := calls w @ [GetAllCall]\<rparr>)
           \<and> length result = length allAuthData
           \<and> (\<forall>i < length allAuthData.
                 result ! i = (allAuthData ! i)\<lparr>saleorApiUrl := httpsUrl (saleorApiUrl (allAuthData ! i))\<rparr>)"
  using assms by (simp add: getAll_def base_getAll_def enforceHttps_def)

theorem getAll_same_order_witness:
  "getAll memApl (world0 [sampleAuthData, sampleAuthData\<lparr>saleorApiUrl := ''https://example2.com/graphql/''\<rparr>]) =
     (Inr [sampleAuthData\<lparr>saleorApiUrl := ''https://example.com/graphql/''\<rparr>,
           sampleAuthData\<lparr>saleorApiUrl := ''https://example2.com/graphql/''\<rparr>],
      \<lparr>store = [sampleAuthData, sampleAuthData\<lparr>saleorApiUrl := ''https://example2.com/graphql/''\<rparr>],
       calls = [GetAllCall], logs = []\<rparr>)"
  using getAll_same_order [where baseApl = memApl
      and w = "world0 [sampleAuthData, sampleAuthData\<lparr>saleorApiUrl := ''https://example2.com/graphql/''\<rparr>]"
      and allAuthData = "[sampleAuthData, sampleAuthData\<lparr>saleorApiUrl := ''https://example2.com/graphql/''\<rparr>]"
      and s' = "[sampleAuthData, sampleAuthData\<lparr>saleorApiUrl := ''https://example2.com/graphql/''\<rparr>]"]
  by (simp add: memApl_def world0_def sampleAuthData_def getAll_def base_getAll_def enforceHttps_def
        httpsUrl_def replace_anchored_def)

section \<open>Properties of the patcher\<close>

lemma keeps_return: "log_closed R \<Longrightarrow> keeps R (js_return x)"
  by (simp add: keeps_def log_closed_def js_return_def)

lemma keeps_bind:
  assumes "log_closed R" "keeps R m" "\<And>x. keeps R (f x)"
  shows "keeps R (js_bind m f)"
  unfolding keeps_def
proof
  fix s
  obtain r s1 where m: "m s = (r, s1)" by (cases "m s")
  have a: "R s s1" using assms(2) m by (auto simp: keeps_def dest: spec[of _ s])
  show "R s (snd (js_bind m f s))"
  proof (cases r)
    case (Inl e)
    then show ?thesis using a m by (simp add: js_bind_def)
  next
    case (Inr x)
    have "R s1 (snd (f x s1))" using assms(3)[of x] by (simp add: keeps_def)
    then show ?thesis using a m Inr assms(1) unfolding log_closed_def
      by (auto simp: js_bind_def)
  qed
qed

lemma keeps_then: "log_closed R \<Longrightarrow> keeps R m \<Longrightarrow> keeps R n \<Longrightarrow> keeps R (js_then m n)"
  by (simp add: js_then_def keeps_bind)

lemma keeps_try_catch:
  assumes "log_closed R" "keeps R m" "\<And>e. keeps R (handler e)"
  shows "keeps R (try_catch m handler)"
  unfolding keeps_def
proof
  fix s
  obtain r s1 where m: "m s = (r, s1)" by (cases "m s")
  have a: "R s s1" using assms(2) m by (auto simp: keeps_def dest: spec[of _ s])
  show "R s (snd (try_catch m handler s))"
  proof (cases r)
    case (Inr x)
    then show ?thesis using a m by (simp add: try_catch_def)
  next
    case (Inl e)
    have "R s1 (snd (handler e s1))" using assms(3)[of e] by (simp add: keeps_def)
    then show ?thesis using a m Inl assms(1) unfolding log_closed_def
      by (auto simp: try_catch_def)
  qed
qed

lemma keeps_logger: "log_closed R \<Longrightarrow> keeps R (logger lvl msg)"
  by (simp add: keeps_def log_closed_def logger_def)

lemma keeps_pure: "log_closed R \<Longrightarrow> keeps R (\<lambda>s. (g s, s))"
  by (simp add: keeps_def log_closed_def)

lemma keeps_read_prop: "log_closed R \<Longrightarrow> keeps R (read_prop v key)"
  unfolding read_prop_def by (rule keeps_pure)

lemma keeps_keys_of: "log_closed R \<Longrightarrow> keeps R (keys_of v)"
  unfolding keys_of_def by (rule keeps_pure)

lemma keeps_cond:
  "keeps R m \<Longrightarrow> keeps R n \<Longrightarrow> keeps R (\<lambda>s. if c s then m s else n s)"
  by (simp add: keeps_def)

lemma keeps_forEach:
  assumes "log_closed R" "\<And>x. keeps R (f x)"
  shows "keeps R (forEach xs f)"
  by (induction xs) (simp_all add: assms keeps_return keeps_then)

lemma keeps_forEach_counting:
  assumes "log_closed R" "\<And>x n. keeps R (f x n)"
  shows "keeps R (forEach_counting xs f n)"
  by (induction xs arbitrary: n) (simp_all add: assms keeps_return keeps_bind)

lemma is_bypass_mono:
  assumes "heap_evolves h h'" "is_bypass h g"
  shows "is_bypass h' g"
  using assms by (auto simp: is_bypass_def heap_evolves_def split: jsval.splits option.splits fn.splits)

lemma heap_evolves_refl: "heap_evolves h h"
  by (simp add: heap_evolves_def)

lemma heap_evolves_trans:
  assumes "heap_evolves h1 h2" "heap_evolves h2 h3"
  shows "heap_evolves h1 h3"
  unfolding heap_evolves_def
proof (intro conjI allI impI)
  show "length h1 \<le> length h3" using assms by (simp add: heap_evolves_def)
next
  fix a assume a: "a < length h1"
  then have a2: "a < length h2" using assms(1) by (simp add: heap_evolves_def)
  show "callable (h3 ! a) = callable (h1 ! a)"
    using assms a a2 by (simp add: heap_evolves_def)
  show "map_of (props (h3 ! a)) ''verifySignatureWithJwks'' =
           map_of (props (h1 ! a)) ''verifySignatureWithJwks'' \<or>
         (\<exists>g. map_of (props (h3 ! a)) ''verifySignatureWithJwks'' = Some (Data g) \<and>
              is_bypass h3 g)"
  proof -
    have s12: "map_of (props (h2 ! a)) ''verifySignatureWithJwks'' =
           map_of (props (h1 ! a)) ''verifySignatureWithJwks'' \<or>
         (\<exists>g. map_of (props (h2 ! a)) ''verifySignatureWithJwks'' = Some (Data g) \<and>
              is_bypass h2 g)"
      using assms(1) a unfolding heap_evolves_def by blast
    have s23: "map_of (props (h3 ! a)) ''verifySignatureWithJwks'' =
           map_of (props (h2 ! a)) ''verifySignatureWithJwks'' \<or>
         (\<exists>g. map_of (props (h3 ! a)) ''verifySignatureWithJwks'' = Some (Data g) \<and>
              is_bypass h3 g)"
      using assms(2) a2 unfolding heap_evolves_def by blast
    show ?thesis using s12 s23 is_bypass_mono[OF assms(2)] by metis
  qed
next
  fix a k assume a: "a < length h1" and k: "k \<noteq> ''verifySignatureWithJwks''"
  then have a2: "a < length h2" using assms(1) by (simp add: heap_evolves_def)
  show "map_of (props (h3 ! a)) k = map_of (props (h1 ! a)) k"
    using assms a a2 k by (simp add: heap_evolves_def)
qed

lemma log_closed_evolves: "log_closed evolves"
  unfolding log_closed_def evolves_def
  by (auto simp: heap_evolves_refl intro: heap_evolves_trans)


lemma map_of_write_prop_same: "map_of (write_prop key v ps) key = Some (Data v)"
proof (cases "key \<in> fst ` set ps")
  case False
  then have "map_of ps key = None" by (simp add: map_of_eq_None_iff)
  then show ?thesis using False by (simp add: write_prop_def map_add_def)
next
  case True
  have "key \<in> fst ` set qs \<Longrightarrow>
        map_of (map (\<lambda>(k, p). if k = key then (k, Data v) else (k, p)) qs) key = Some (Data v)" for qs
    by (induction qs) auto
  then show ?thesis using True by (simp add: write_prop_def)
qed

lemma map_of_write_prop_other: "k \<noteq> key \<Longrightarrow> map_of (write_prop key v ps) k = map_of ps k"
proof -
  assume k: "k \<noteq> key"
  have "map_of (map (\<lambda>(k, p). if k = key then (k, Data v) else (k, p)) qs) k = map_of qs k" for qs
    using k by (induction qs) auto
  then show ?thesis using k by (simp add: write_prop_def map_add_def split: option.splits)
qed

lemma patchSignatureFunction_cases:
  assumes "patchSignatureFunction ob key mp s = (r, s')"
  shows "(\<exists>e. r = Inl e \<and> plogs s' = plogs s \<and>
            (heap s' = heap s \<or> heap s' = heap s @ [\<lparr>props = [], callable = Some (Bypass key mp)\<rparr>]))
         \<or> (\<exists>a. ob = Ref a \<and> a \<le> length (heap s) \<and> r = Inr () \<and>
              plogs s' = plogs s @ [Event Info (SuccessfullyPatched key (pop (split mp ''node_modules'')))] \<and>
              heap s' = (heap s @ [\<lparr>props = [], callable = Some (Bypass key mp)\<rparr>])
                 [a := ((heap s @ [\<lparr>props = [], callable = Some (Bypass key mp)\<rparr>]) ! a)
                    \<lparr>props := write_prop key (Ref (length (heap s)))
                       (props ((heap s @ [\<lparr>props = [], callable = Some (Bypass key mp)\<rparr>]) ! a))\<rparr>])"
  and "require_cache s' = require_cache s" "require_module s' = require_module s" "native s' = native s"
  using assms
  by (cases ob; auto simp: patchSignatureFunction_def js_bind_def js_then_def read_prop_def
        new_function_def assign_prop_def logger_def
        split: sum.splits prod.splits if_splits option.splits binding.splits)+

lemma keeps_patchSignatureFunction:
  "keeps evolves (patchSignatureFunction ob ''verifySignatureWithJwks'' mp)"
  unfolding keeps_def
proof
  fix s
  obtain r s' where rs: "patchSignatureFunction ob ''verifySignatureWithJwks'' mp s = (r, s')"
    by (cases "patchSignatureFunction ob ''verifySignatureWithJwks'' mp s")
  note c = patchSignatureFunction_cases[OF rs]
  have "heap_evolves (heap s) (heap s')"
    using c(1)
    by (auto simp: heap_evolves_def nth_append nth_list_update is_bypass_def
          map_of_write_prop_same map_of_write_prop_other)
  moreover have "prefix (plogs s) (plogs s')" using c(1) by auto
  ultimately show "evolves s (snd (patchSignatureFunction ob ''verifySignatureWithJwks'' mp s))"
    using c(2-4) rs by (simp add: evolves_def)
qed


lemmas keeps_intros =
  keeps_return keeps_bind keeps_then keeps_try_catch keeps_logger keeps_pure keeps_read_prop
  keeps_keys_of keeps_cond keeps_forEach keeps_forEach_counting

lemma keeps_inspectExports: "keeps evolves (inspectExports ex mp n)"
  unfolding inspectExports_def inspectDirect_def inspectDefault_def reportCandidates_def
  by (intro keeps_intros log_closed_evolves keeps_patchSignatureFunction
        keeps_patchSignatureFunction[where mp = "mp @ ''.default''"] | simp split del: if_split
      | rule if_split[where P = "keeps evolves", THEN iffD2] | intro conjI impI)+

lemma keeps_scanModule: "keeps evolves (scanModule mc mp n)"
  unfolding scanModule_def Let_def
  by (intro keeps_intros log_closed_evolves keeps_inspectExports | simp split del: if_split
      | rule if_split[where P = "keeps evolves", THEN iffD2] | intro conjI impI)+

lemma keeps_patchRequireCache: "keeps evolves patchRequireCache"
  unfolding patchRequireCache_def Let_def
  by (intro keeps_intros log_closed_evolves keeps_scanModule | simp split del: if_split
      | rule if_split[where P = "keeps evolves", THEN iffD2] | intro conjI impI)+






















lemma forEach_total:
  assumes "\<And>x s. fst (f x s) = Inr ()"
  shows "fst (forEach xs f s) = Inr ()"
proof (induction xs arbitrary: s)
  case Nil
  then show ?case by (simp add: js_return_def)
next
  case (Cons x xs)
  obtain r s1 where fx: "f x s = (r, s1)" by (cases "f x s")
  then have "r = Inr ()" using assms[of x s] by simp
  then show ?case using fx Cons.IH[of s1] by (simp add: js_then_def js_bind_def)
qed


lemma patchByRequire_total: "fst (patchByRequire s) = Inr ()"
  unfolding patchByRequire_def
  by (rule forEach_total) (simp add: try_catch_def js_return_def split: prod.splits sum.splits)

















end
